theory Spec2Isabelle
  imports Main "HOL-Library.Word"
begin

section \<open>Data model\<close>

text \<open>
  The Go struct \<^verbatim>\<open>config.Config\<close> is declared outside the sources modelled here. The record
  below has exactly the fields that \<^verbatim>\<open>pkg/cli/runner.go\<close> reads or writes
  (\<^verbatim>\<open>Owner\<close>, \<^verbatim>\<open>Repo\<close>, \<^verbatim>\<open>GitHubToken\<close>, \<^verbatim>\<open>Base\<close>, \<^verbatim>\<open>All\<close>, \<^verbatim>\<open>LogLevel\<close>,
  \<^verbatim>\<open>Expr\<close>, \<^verbatim>\<open>EmptyCommitMsg\<close>, \<^verbatim>\<open>GitCommand.UserName\<close>, \<^verbatim>\<open>GitCommand.UserEmail\<close>).
  Go strings are byte strings, as \<^typ>\<open>string\<close> is. The field \<^verbatim>\<open>All\<close> is named
  \<open>All_flag\<close>, since \<open>All\<close> is the universal quantifier of HOL. Any further field of
  the struct lives in the extension slot of the record scheme.
\<close>

record GitCommand =
  UserName :: string
  UserEmail :: string

record Config =
  Owner :: string
  Repo :: string
  GitHubToken :: string
  Base :: string
  All_flag :: bool
  LogLevel :: string
  Expr :: string
  EmptyCommitMsg :: string
  GitCommand :: GitCommand

text \<open>
  \<^verbatim>\<open>*cli.Context\<close> of urfave/cli, as far as the runner uses it: \<^verbatim>\<open>c.String(name)\<close>
  (the empty string when the flag is not given) and \<^verbatim>\<open>c.Bool(name)\<close>.
\<close>

record Context =
  String_of :: "string \<Rightarrow> string"
  Bool_of :: "string \<Rightarrow> bool"

section \<open>Runner.setCLIArg\<close>

definition setCLIArg :: "Context \<Rightarrow> 'a Config_scheme \<Rightarrow> 'a Config_scheme" where
  "setCLIArg c cfg0 =
    (let owner = String_of c ''owner'';
         cfg = (if owner \<noteq> '''' then cfg0\<lparr>Owner := owner\<rparr> else cfg0);
         repo = String_of c ''repo'';
         cfg = (if repo \<noteq> '''' then cfg\<lparr>Repo := repo\<rparr> else cfg);
         token = String_of c ''github-token'';
         cfg = (if token \<noteq> '''' then cfg\<lparr>GitHubToken := token\<rparr> else cfg);
         base = String_of c ''base'';
         cfg = (if base \<noteq> '''' then cfg\<lparr>Base := base\<rparr> else cfg);
         cfg = (if Bool_of c ''all'' then cfg\<lparr>All_flag := True\<rparr> else cfg);
         logLevel = String_of c ''log-level'';
         cfg = (if logLevel \<noteq> '''' then cfg\<lparr>LogLevel := logLevel\<rparr> else cfg)
     in cfg)"

section \<open>Errors, collaborators and observable events\<close>

text \<open>
  Go's \<^verbatim>\<open>error\<close> values. The five sentinels are the package-level variables of
  \<^verbatim>\<open>pkg/cli/runner.go\<close>; \<open>Errorf msg e\<close> is \<^verbatim>\<open>fmt.Errorf(msg + ": %w", e)\<close>, an error
  wrapping \<open>e\<close>; \<open>External msg\<close> is an error produced outside the runner (by the
  operating system, the YAML decoder, logrus, the expression compiler or the controller).
\<close>

datatype error =
    ErrGitHubAccessTokenIsRequired
  | ErrOwnerIsRequired
  | ErrRepoIsRequired
  | ErrEitherAllorBaseIsRequired
  | ErrBothAllAndBaseCantBeSet
  | Errorf string error
  | External string

text \<open>\<^verbatim>\<open>logrus.Level\<close> is a \<^verbatim>\<open>uint32\<close>.\<close>

type_synonym Level = "32 word"

text \<open>\<^verbatim>\<open>cienv.Platform\<close>, as far as the runner uses it; \<^verbatim>\<open>cienv.Get()\<close> may return nil.\<close>

record Platform =
  RepoOwner :: string
  RepoName :: string

text \<open>The arguments of \<^verbatim>\<open>github.New\<close> and \<^verbatim>\<open>git.New\<close>, and the controller built from them.\<close>

record github_ParamsNew =
  Token :: string

record git_ParamsNew =
  git_UserName :: string
  git_UserEmail :: string

record 'p Controller =
  ctrl_Config :: Config
  ctrl_GitHub :: github_ParamsNew
  ctrl_Expr :: 'p
  ctrl_Git :: git_ParamsNew

text \<open>
  What \<^verbatim>\<open>Runner.action\<close> does to the outside after validation, in program order: it
  builds the GitHub client, possibly logs an invalid log level, sets the log level, logs
  the configuration at debug level, compiles the expression and calls
  \<^verbatim>\<open>controller.UpdatePR\<close>. The GitHub client is used, and the network reached, only from
  \<open>GitHub_New\<close> on.
\<close>

datatype 'p event =
    GitHub_New github_ParamsNew
  | Log_Error string error
  | Set_Level Level
  | Log_Debug Config
  | Expr_New string
  | Update_PR "'p Controller"

text \<open>
  Everything the runner calls from outside the sources modelled here, as parameters:
  the operating system (\<^verbatim>\<open>os.Stat\<close>, \<^verbatim>\<open>os.Getwd\<close>, \<^verbatim>\<open>os.Open\<close> giving the bytes of the
  file), \<^verbatim>\<open>yaml.NewDecoder(f).Decode(&cfg)\<close> (which may change \<open>cfg\<close> even when it
  fails), \<^verbatim>\<open>config.SetEnv\<close>, \<^verbatim>\<open>config.SetDefault\<close>, \<^verbatim>\<open>cienv.Get\<close>,
  \<^verbatim>\<open>logrus.ParseLevel\<close> (a level and an error, as Go returns both), \<^verbatim>\<open>expr.New\<close> and
  \<^verbatim>\<open>Controller.UpdatePR\<close>.
\<close>

record 'p Env =
  os_Stat :: "string \<Rightarrow> error option"
  os_Getwd :: "error + string"
  os_Open :: "string \<Rightarrow> error + string"
  yaml_Decode :: "string \<Rightarrow> Config \<Rightarrow> Config \<times> error option"
  SetEnv :: "Config \<Rightarrow> Config"
  SetDefault :: "Config \<Rightarrow> Config"
  cienv_Get :: "Platform option"
  ParseLevel :: "string \<Rightarrow> Level \<times> error option"
  expr_New :: "string \<Rightarrow> error + 'p"
  UpdatePR :: "'p Controller \<Rightarrow> error option"

section \<open>Go's path/filepath on Unix\<close>

text \<open>
  \<^verbatim>\<open>filepath.Clean\<close>, \<^verbatim>\<open>filepath.Join\<close> and \<^verbatim>\<open>filepath.Dir\<close> of the Go standard library,
  for Unix (the separator is the slash, there is no volume name, \<^verbatim>\<open>FromSlash\<close> is the
  identity). \<open>cleanLoop rooted out dotdot p\<close> is the main loop of \<^verbatim>\<open>Clean\<close>: \<open>p\<close> is
  \<^verbatim>\<open>path[r:]\<close>, \<open>out\<close> is the first \<^verbatim>\<open>out.w\<close> bytes of the output buffer.
\<close>

definition IsPathSeparator :: "char \<Rightarrow> bool" where
  "IsPathSeparator c = (c = CHR ''/'')"

text \<open>\<^verbatim>\<open>r+1 == n || os.IsPathSeparator(path[r+1])\<close>, on \<^verbatim>\<open>path[r+1:]\<close>.\<close>

definition atElemEnd :: "string \<Rightarrow> bool" where
  "atElemEnd cs = (case cs of [] \<Rightarrow> True | d # _ \<Rightarrow> IsPathSeparator d)"

text \<open>
  \<^verbatim>\<open>for out.w > dotdot && !os.IsPathSeparator(out.index(out.w)) { out.w-- }\<close>, started
  at \<open>w\<close>; it returns the final \<^verbatim>\<open>out.w\<close>.
\<close>

fun backtrack :: "nat \<Rightarrow> string \<Rightarrow> nat \<Rightarrow> nat" where
  "backtrack dotdot buf 0 = 0"
| "backtrack dotdot buf (Suc w) =
     (if Suc w > dotdot \<and> \<not> IsPathSeparator (buf ! Suc w)
      then backtrack dotdot buf w else Suc w)"

function cleanLoop :: "bool \<Rightarrow> string \<Rightarrow> nat \<Rightarrow> string \<Rightarrow> string" where
  "cleanLoop rooted out dotdot [] = out"
| "cleanLoop rooted out dotdot (c # cs) =
     (if IsPathSeparator c then cleanLoop rooted out dotdot cs
      else if c = CHR ''.'' \<and> atElemEnd cs then cleanLoop rooted out dotdot cs
      else if c = CHR ''.'' \<and>
              (case cs of [] \<Rightarrow> False | d # ds \<Rightarrow> d = CHR ''.'' \<and> atElemEnd ds) then
        (if length out > dotdot
         then cleanLoop rooted (take (backtrack dotdot out (length out - 1)) out) dotdot (tl cs)
         else if \<not> rooted
         then (let out' = (if length out > 0 then out @ ''/'' else out) @ ''..''
               in cleanLoop rooted out' (length out') (tl cs))
         else cleanLoop rooted out dotdot (tl cs))
      else
        (let out' = (if rooted \<and> length out \<noteq> 1 \<or> \<not> rooted \<and> length out \<noteq> 0
                     then out @ ''/'' else out)
         in cleanLoop rooted (out' @ takeWhile (\<lambda>x. \<not> IsPathSeparator x) (c # cs)) dotdot
              (dropWhile (\<lambda>x. \<not> IsPathSeparator x) (c # cs))))"
  by pat_completeness auto
termination
proof (relation "measure (\<lambda>(rooted, out, dotdot, p). length p)", goal_cases)
  case 1 show ?case by simp
next
  case 2 then show ?case by simp
next
  case 3 then show ?case by simp
next
  case 4 then show ?case by (auto split: list.splits)
next
  case 5 then show ?case by (auto split: list.splits)
next
  case 6 then show ?case by (auto split: list.splits)
next
  case (7 c rooted out dotdot cs x)
  have "length (dropWhile (\<lambda>x. \<not> IsPathSeparator x) cs) \<le> length cs"
    by (rule length_dropWhile_le)
  with 7 show ?case by simp
qed

definition Clean :: "string \<Rightarrow> string" where
  "Clean path =
     (if path = '''' then ''.''
      else
        (let rooted = IsPathSeparator (hd path);
             out = cleanLoop rooted (if rooted then ''/'' else '''') (if rooted then 1 else 0)
                     (if rooted then tl path else path)
         in if length out = 0 then ''.'' else out))"

fun strings_Join :: "string list \<Rightarrow> string \<Rightarrow> string" where
  "strings_Join [] sep = ''''"
| "strings_Join [e] sep = e"
| "strings_Join (e # es) sep = e @ sep @ strings_Join es sep"

fun Join :: "string list \<Rightarrow> string" where
  "Join [] = ''''"
| "Join (e # es) = (if e \<noteq> '''' then Clean (strings_Join (e # es) ''/'') else Join es)"

text \<open>
  \<^verbatim>\<open>i := len(path) - 1; for i >= 0 && !os.IsPathSeparator(path[i]) { i-- }\<close>:
  \<open>lastSeparator path (len path)\<close> is the final \<^verbatim>\<open>i+1\<close>.
\<close>

fun lastSeparator :: "string \<Rightarrow> nat \<Rightarrow> nat" where
  "lastSeparator path 0 = 0"
| "lastSeparator path (Suc i) =
     (if \<not> IsPathSeparator (path ! i) then lastSeparator path i else Suc i)"

definition Dir :: "string \<Rightarrow> string" where
  "Dir path = Clean (take (lastSeparator path (length path)) path)"

text \<open>\<^verbatim>\<open>filepath.IsAbs\<close> on Unix: the path starts with a slash.\<close>

definition IsAbs :: "string \<Rightarrow> bool" where
  "IsAbs path = (case path of [] \<Rightarrow> False | c # _ \<Rightarrow> c = CHR ''/'')"

section \<open>config.Reader\<close>

record Reader =
  ExistFile :: "string \<Rightarrow> bool"

definition names :: "string list" where
  "names = [''.run-ci.yml'', ''.run-ci.yaml'']"

text \<open>The inner loop of \<^verbatim>\<open>Reader.find\<close>, over the file names.\<close>

fun findIn :: "Reader \<Rightarrow> string \<Rightarrow> string list \<Rightarrow> string option" where
  "findIn reader wd [] = None"
| "findIn reader wd (name # rest) =
     (let p = Join [wd, name]
      in if ExistFile reader p then Some p else findIn reader wd rest)"

text \<open>
  \<^verbatim>\<open>Reader.find\<close>. The outer loop has no bound, so the function is partial: \<open>None\<close>
  means that the loop never returns.
\<close>

partial_function (option) find :: "Reader \<Rightarrow> string \<Rightarrow> (string \<times> bool) option" where
  "find reader wd =
     (case findIn reader wd names of
        Some p \<Rightarrow> Some (p, True)
      | None \<Rightarrow>
          if wd = ''/'' \<or> wd = '''' then Some ('''', False)
          else find reader (Dir wd))"

text \<open>The zero value \<^verbatim>\<open>Config{}\<close>.\<close>

definition Config_zero :: Config where
  "Config_zero =
     \<lparr>Owner = '''', Repo = '''', GitHubToken = '''', Base = '''', All_flag = False,
      LogLevel = '''', Expr = '''', EmptyCommitMsg = '''',
      GitCommand = \<lparr>UserName = '''', UserEmail = ''''\<rparr>\<rparr>"

text \<open>\<^verbatim>\<open>Reader.read\<close>: the pair \<^verbatim>\<open>(Config, error)\<close> that Go returns.\<close>

definition read :: "('p, 'x) Env_scheme \<Rightarrow> string \<Rightarrow> Config \<times> error option" where
  "read env p =
     (let cfg = Config_zero
      in case os_Open env p of
           Inl err \<Rightarrow> (cfg, Some err)
         | Inr f \<Rightarrow>
             (case yaml_Decode env f cfg of
                (cfg, Some err) \<Rightarrow> (cfg, Some err)
              | (cfg, None) \<Rightarrow> (cfg, None)))"

definition FindAndRead ::
  "('p, 'x) Env_scheme \<Rightarrow> Reader \<Rightarrow> string \<Rightarrow> string \<Rightarrow> (Config \<times> error option) option" where
  "FindAndRead env reader cfgPath wd =
     (let cfg = Config_zero
      in if cfgPath = '''' then
           (case find reader wd of
              None \<Rightarrow> None
            | Some (p, b) \<Rightarrow> if \<not> b then Some (cfg, None) else Some (read env p))
         else Some (read env cfgPath))"

section \<open>Runner.readConfig and Runner.action\<close>

definition readConfig ::
  "('p, 'x) Env_scheme \<Rightarrow> Context \<Rightarrow> (Config \<times> error option) option" where
  "readConfig env c =
     (let reader = \<lparr>ExistFile = (\<lambda>p. os_Stat env p = None)\<rparr>;
          cfgPath = String_of c ''config''
      in case os_Getwd env of
           Inl err \<Rightarrow> Some (Config_zero, Some err)
         | Inr wd \<Rightarrow> FindAndRead env reader cfgPath wd)"

text \<open>
  Lines 135 to 148 of \<^verbatim>\<open>Runner.action\<close>: the configuration read from the file, then
  the CLI flags, the environment, the defaults and the fallback to the CI platform.
\<close>

definition assemble :: "('p, 'x) Env_scheme \<Rightarrow> Context \<Rightarrow> Config \<Rightarrow> Config" where
  "assemble env c cfg0 =
     (let cfg = setCLIArg c cfg0;
          cfg = SetEnv env cfg;
          cfg = SetDefault env cfg
      in case cienv_Get env of
           None \<Rightarrow> cfg
         | Some platform \<Rightarrow>
             (let cfg = (if Owner cfg = '''' then cfg\<lparr>Owner := RepoOwner platform\<rparr> else cfg);
                  cfg = (if Repo cfg = '''' then cfg\<lparr>Repo := RepoName platform\<rparr> else cfg)
              in cfg))"

text \<open>Lines 169 to 177: the events of setting the log level.\<close>

definition setLogLevel :: "('p, 'x) Env_scheme \<Rightarrow> Config \<Rightarrow> 'p event list" where
  "setLogLevel env cfg =
     (if LogLevel cfg \<noteq> '''' then
        (case ParseLevel env (LogLevel cfg) of
           (lvl, err) \<Rightarrow>
             (case err of Some e \<Rightarrow> [Log_Error (LogLevel cfg) e] | None \<Rightarrow> [])
             @ [Set_Level lvl])
      else [])"

text \<open>
  \<^verbatim>\<open>Runner.action\<close>: the error it returns (\<open>None\<close> for nil) and the events it caused,
  in order. The outer \<open>None\<close> is a run that never returns (\<^verbatim>\<open>Reader.find\<close> looping).
\<close>

definition action ::
  "('p, 'x) Env_scheme \<Rightarrow> Context \<Rightarrow> (error option \<times> 'p event list) option" where
  "action env c =
     (case readConfig env c of
        None \<Rightarrow> None
      | Some (cfg0, Some err) \<Rightarrow> Some (Some err, [])
      | Some (cfg0, None) \<Rightarrow>
          Some
            (let cfg = assemble env c cfg0
             in if Owner cfg = '''' then (Some ErrOwnerIsRequired, [])
                else if Repo cfg = '''' then (Some ErrRepoIsRequired, [])
                else if \<not> All_flag cfg \<and> Base cfg = ''''
                then (Some ErrEitherAllorBaseIsRequired, [])
                else if All_flag cfg \<and> Base cfg \<noteq> ''''
                then (Some ErrBothAllAndBaseCantBeSet, [])
                else
                  (let ghClient = \<lparr>Token = GitHubToken cfg\<rparr>;
                       tr = [GitHub_New ghClient] @ setLogLevel env cfg
                            @ [Log_Debug cfg, Expr_New (Expr cfg)]
                   in case expr_New env (Expr cfg) of
                        Inl err \<Rightarrow>
                          (Some (Errorf
                             ''it is failed to compile the expression. Please check the expression''
                             err), tr)
                      | Inr ex \<Rightarrow>
                          (let ctrl = \<lparr>ctrl_Config = cfg, ctrl_GitHub = ghClient,
                                       ctrl_Expr = ex,
                                       ctrl_Git = \<lparr>git_UserName = UserName (GitCommand cfg),
                                                   git_UserEmail = UserEmail (GitCommand cfg)\<rparr>\<rparr>
                           in (UpdatePR env ctrl, tr @ [Update_PR ctrl])))))"

section \<open>Concrete inputs\<close>

text \<open>
  A command line: the string flags given, and whether \<^verbatim>\<open>--all\<close> is given. A flag that
  is not given reads as the empty string.
\<close>

definition ctx_of :: "(string \<times> string) list \<Rightarrow> bool \<Rightarrow> Context" where
  "ctx_of flags all =
     \<lparr>String_of = (\<lambda>name. case map_of flags name of Some v \<Rightarrow> v | None \<Rightarrow> ''''),
      Bool_of = (\<lambda>name. name = ''all'' \<and> all)\<rparr>"

text \<open>
  A process started in the root directory of a machine with no configuration file, no
  CI platform and no environment or default that changes the configuration; the only log
  level it knows is \<^verbatim>\<open>debug\<close>, the only expression it compiles is the empty one, and
  the controller succeeds.
\<close>

definition env_ex :: "unit Env" where
  "env_ex =
     \<lparr>os_Stat = (\<lambda>p. Some (External ''no such file or directory'')),
      os_Getwd = Inr ''/'',
      os_Open = (\<lambda>p. Inl (External ''no such file or directory'')),
      yaml_Decode = (\<lambda>f cfg. (cfg, None)),
      SetEnv = (\<lambda>cfg. cfg),
      SetDefault = (\<lambda>cfg. cfg),
      cienv_Get = None,
      ParseLevel = (\<lambda>s. if s = ''debug'' then (5, None)
                          else (0, Some (External ''not a valid logrus Level''))),
      expr_New = (\<lambda>s. if s = '''' then Inr () else Inl (External ''unexpected token'')),
      UpdatePR = (\<lambda>ctrl. None)\<rparr>"

section \<open>The expression evaluator and the controller, from the specification\<close>

text \<open>
  Modelled from the spec: \<^verbatim>\<open>expr.New\<close> (package \<^verbatim>\<open>pkg/expr\<close>) is called by the runner but
  is not among the sources modelled here. Section 4.1 of the specification gives its contract:
  \<^verbatim>\<open>compile(source) -> Predicate | CompileError\<close>, where an empty or absent source compiles
  to a predicate that always returns true, and \<^verbatim>\<open>Predicate.evaluate(context) -> bool | EvalError\<close>.
  A Go string has no absent value other than the empty string. The compiler of the
  expression language, for a source that is not empty, is the parameter \<open>compileSource\<close>.
\<close>

type_synonym 'ctx Predicate = "'ctx \<Rightarrow> error + bool"

definition compile ::
  "(string \<Rightarrow> error + 'ctx Predicate) \<Rightarrow> string \<Rightarrow> error + 'ctx Predicate" where
  "compile compileSource source =
     (if source = '''' then Inr (\<lambda>ctx. Inr True) else compileSource source)"

text \<open>
  Modelled from the spec: \<^verbatim>\<open>Controller.UpdatePR\<close> (package \<^verbatim>\<open>pkg/controller\<close>) is called
  by the runner but is not among the sources modelled here. Sections 3 and 4.4 of the
  specification give the data and the loop: the candidates are taken in the order
  received; for each one the filter is evaluated (false: \<^verbatim>\<open>skipped-by-filter\<close>; an
  evaluation error: \<^verbatim>\<open>failed\<close>), then staleness is detected (not stale: \<^verbatim>\<open>up-to-date\<close>;
  an error: \<^verbatim>\<open>failed\<close>), then the trigger executor is invoked (\<^verbatim>\<open>triggered\<close>, or
  \<^verbatim>\<open>failed\<close> with the detail), and the loop continues regardless. The collaborators
  are parameters; the trigger executor changes the state \<open>'s\<close> of the working copy and
  the remote, the staleness check only reads it.
\<close>

record Candidate =
  Number :: nat
  HeadBranch :: string
  HeadSHA :: string
  BaseBranch :: string
  BaseSHA :: string

datatype ActionTaken = SkippedByFilter | UpToDate | Triggered | Failed error

record OutcomeRecord =
  pr_number :: nat
  action_taken :: ActionTaken

text \<open>What the controller does with a candidate, in order, for the run's log.\<close>

datatype Step =
    is_Evaluated: Evaluated nat
  | is_StalenessChecked: StalenessChecked nat
  | is_TriggerInvoked: TriggerInvoked nat

record ('ctx, 's) Collaborators =
  context_of :: "Candidate \<Rightarrow> 'ctx"
  isStale :: "'s \<Rightarrow> Candidate \<Rightarrow> error + bool"
  trigger :: "'s \<Rightarrow> Candidate \<Rightarrow> (error + string) \<times> 's"

definition processCandidate ::
  "('ctx, 's) Collaborators \<Rightarrow> 'ctx Predicate \<Rightarrow> 's \<Rightarrow> Candidate
   \<Rightarrow> (OutcomeRecord \<times> Step list) \<times> 's" where
  "processCandidate col pred s c =
     (let n = Number c
      in case pred (context_of col c) of
           Inl e \<Rightarrow> ((\<lparr>pr_number = n, action_taken = Failed e\<rparr>, [Evaluated n]), s)
         | Inr False \<Rightarrow> ((\<lparr>pr_number = n, action_taken = SkippedByFilter\<rparr>, [Evaluated n]), s)
         | Inr True \<Rightarrow>
             (case isStale col s c of
                Inl e \<Rightarrow>
                  ((\<lparr>pr_number = n, action_taken = Failed e\<rparr>,
                    [Evaluated n, StalenessChecked n]), s)
              | Inr False \<Rightarrow>
                  ((\<lparr>pr_number = n, action_taken = UpToDate\<rparr>,
                    [Evaluated n, StalenessChecked n]), s)
              | Inr True \<Rightarrow>
                  (case trigger col s c of
                     (Inl e, s') \<Rightarrow>
                       ((\<lparr>pr_number = n, action_taken = Failed e\<rparr>,
                         [Evaluated n, StalenessChecked n, TriggerInvoked n]), s')
                   | (Inr sha, s') \<Rightarrow>
                       ((\<lparr>pr_number = n, action_taken = Triggered\<rparr>,
                         [Evaluated n, StalenessChecked n, TriggerInvoked n]), s'))))"

text \<open>The state \<^verbatim>\<open>Iterating\<close>: the run summary and the log of the steps, in order.\<close>

fun runCandidates ::
  "('ctx, 's) Collaborators \<Rightarrow> 'ctx Predicate \<Rightarrow> 's \<Rightarrow> Candidate list
   \<Rightarrow> (OutcomeRecord list \<times> Step list) \<times> 's" where
  "runCandidates col pred s [] = (([], []), s)"
| "runCandidates col pred s (c # cs) =
     (case processCandidate col pred s c of
        ((outcome, steps), s') \<Rightarrow>
          (case runCandidates col pred s' cs of
             ((outcomes, steps'), s'') \<Rightarrow> ((outcome # outcomes, steps @ steps'), s'')))"

text \<open>
  Scenario C of the specification, with a draft added: pull request 1 is stale and its
  push fails, pull request 2 is up to date, pull request 3 is stale, pull request 4 is
  excluded by the filter. The state counts the pushes that succeeded.
\<close>

definition cand :: "nat \<Rightarrow> Candidate" where
  "cand n = \<lparr>Number = n, HeadBranch = ''feature'', HeadSHA = ''c0ffee'',
             BaseBranch = ''main'', BaseSHA = ''ba5e''\<rparr>"

definition col_ex :: "(nat, nat) Collaborators" where
  "col_ex =
     \<lparr>context_of = Number,
      isStale = (\<lambda>s c. Inr (Number c \<noteq> 2)),
      trigger = (\<lambda>s c. if Number c = 1 then (Inl (External ''push: permission denied''), s)
                        else (Inr ''f00d'', Suc s))\<rparr>"

section \<open>Properties of Runner.setCLIArg\<close>

text \<open>
  C5. For every input configuration and every CLI invocation, \<open>setCLIArg\<close> returns a
  configuration whose owner, repo, token, base and log level are the flag's value when
  the flag is non-empty and the input's value otherwise; whose all-flag is set exactly
  when the CLI flag is set or the input had it set; and whose other fields (expression,
  commit message, git identity and whatever else the struct holds) are those of the input.
\<close>

theorem setCLIArg_fields:
  "setCLIArg c cfg =
     cfg\<lparr>Owner := (if String_of c ''owner'' \<noteq> '''' then String_of c ''owner'' else Owner cfg),
         Repo := (if String_of c ''repo'' \<noteq> '''' then String_of c ''repo'' else Repo cfg),
         GitHubToken := (if String_of c ''github-token'' \<noteq> ''''
                         then String_of c ''github-token'' else GitHubToken cfg),
         Base := (if String_of c ''base'' \<noteq> '''' then String_of c ''base'' else Base cfg),
         All_flag := (Bool_of c ''all'' \<or> All_flag cfg),
         LogLevel := (if String_of c ''log-level'' \<noteq> ''''
                      then String_of c ''log-level'' else LogLevel cfg)\<rparr>"
  by (simp add: setCLIArg_def Let_def)

section \<open>Properties of Runner.action\<close>

lemma readConfig_env_ex:
  "String_of c ''config'' = '''' \<Longrightarrow> readConfig env_ex c = Some (Config_zero, None)"
  by (simp add: readConfig_def env_ex_def FindAndRead_def find.simps names_def Let_def)

lemma action_unfold:
  assumes "readConfig env c = Some (cfg0, None)"
  shows "action env c =
     Some
            (let cfg = assemble env c cfg0
             in if Owner cfg = '''' then (Some ErrOwnerIsRequired, [])
                else if Repo cfg = '''' then (Some ErrRepoIsRequired, [])
                else if \<not> All_flag cfg \<and> Base cfg = ''''
                then (Some ErrEitherAllorBaseIsRequired, [])
                else if All_flag cfg \<and> Base cfg \<noteq> ''''
                then (Some ErrBothAllAndBaseCantBeSet, [])
                else
                  (let ghClient = \<lparr>Token = GitHubToken cfg\<rparr>;
                       tr = [GitHub_New ghClient] @ setLogLevel env cfg
                            @ [Log_Debug cfg, Expr_New (Expr cfg)]
                   in case expr_New env (Expr cfg) of
                        Inl err \<Rightarrow>
                          (Some (Errorf
                             ''it is failed to compile the expression. Please check the expression''
                             err), tr)
                      | Inr ex \<Rightarrow>
                          (let ctrl = \<lparr>ctrl_Config = cfg, ctrl_GitHub = ghClient,
                                       ctrl_Expr = ex,
                                       ctrl_Git = \<lparr>git_UserName = UserName (GitCommand cfg),
                                                   git_UserEmail = UserEmail (GitCommand cfg)\<rparr>\<rparr>
                           in (UpdatePR env ctrl, tr @ [Update_PR ctrl]))))"
  using assms by (simp add: action_def)

text \<open>
  C1 (as amended). When the assembled configuration has both the base branch and the
  all-flag set, or neither, \<open>action\<close> returns a configuration error and causes no event
  at all: the GitHub client is not built and \<^verbatim>\<open>UpdatePR\<close> is not called. The error is
  \<open>ErrBothAllAndBaseCantBeSet\<close>, respectively \<open>ErrEitherAllorBaseIsRequired\<close>, when owner
  and repo are not empty; an empty owner or repo is reported first.
\<close>

theorem action_selection_mode_error:
  assumes "readConfig env c = Some (cfg0, None)"
    and "cfg = assemble env c cfg0"
    and "All_flag cfg = (Base cfg \<noteq> '''')"
  shows "action env c =
           Some (Some (if Owner cfg = '''' then ErrOwnerIsRequired
                       else if Repo cfg = '''' then ErrRepoIsRequired
                       else if All_flag cfg then ErrBothAllAndBaseCantBeSet
                       else ErrEitherAllorBaseIsRequired), [])"
  using assms(2,3) by (simp add: action_unfold[OF assms(1)] Let_def)

lemma assemble_env_ex: "assemble env_ex c cfg0 = setCLIArg c cfg0"
  by (simp add: assemble_def env_ex_def)

lemma ctx_simps:
  "String_of (ctx_of fl a) n = (case map_of fl n of Some v \<Rightarrow> v | None \<Rightarrow> '''')"
  "Bool_of (ctx_of fl a) n = (n = ''all'' \<and> a)"
  by (simp_all add: ctx_of_def)

theorem action_selection_mode_error_witness:
  "action env_ex (ctx_of [(''owner'', ''o''), (''repo'', ''r''), (''base'', ''main'')] True)
     = Some (Some ErrBothAllAndBaseCantBeSet, [])
   \<and> action env_ex (ctx_of [(''owner'', ''o''), (''repo'', ''r'')] False)
     = Some (Some ErrEitherAllorBaseIsRequired, [])"
proof -
  let ?c1 = "ctx_of [(''owner'', ''o''), (''repo'', ''r''), (''base'', ''main'')] True"
  let ?c2 = "ctx_of [(''owner'', ''o''), (''repo'', ''r'')] False"
  have r1: "readConfig env_ex ?c1 = Some (Config_zero, None)"
    by (rule readConfig_env_ex) (simp add: ctx_simps)
  have r2: "readConfig env_ex ?c2 = Some (Config_zero, None)"
    by (rule readConfig_env_ex) (simp add: ctx_simps)
  have a1: "assemble env_ex ?c1 Config_zero =
      Config_zero\<lparr>Owner := ''o'', Repo := ''r'', Base := ''main'', All_flag := True\<rparr>"
    by (simp add: assemble_env_ex setCLIArg_def ctx_simps Let_def)
  have a2: "assemble env_ex ?c2 Config_zero = Config_zero\<lparr>Owner := ''o'', Repo := ''r''\<rparr>"
    by (simp add: assemble_env_ex setCLIArg_def ctx_simps Let_def)
  show ?thesis
    using action_selection_mode_error[OF r1 a1[symmetric]]
      action_selection_mode_error[OF r2 a2[symmetric]]
    by (simp add: Config_zero_def)
qed

text \<open>
  C1 as stated fails: with \<^verbatim>\<open>--base main --all\<close> and no owner anywhere, both are set
  and the error is \<open>ErrOwnerIsRequired\<close>.
\<close>

theorem action_selection_mode_counterexample:
  "readConfig env_ex (ctx_of [(''base'', ''main'')] True) = Some (Config_zero, None)
   \<and> All_flag (assemble env_ex (ctx_of [(''base'', ''main'')] True) Config_zero)
   \<and> Base (assemble env_ex (ctx_of [(''base'', ''main'')] True) Config_zero) \<noteq> ''''
   \<and> action env_ex (ctx_of [(''base'', ''main'')] True) = Some (Some ErrOwnerIsRequired, [])
   \<and> action env_ex (ctx_of [(''base'', ''main'')] True)
       \<noteq> Some (Some ErrBothAllAndBaseCantBeSet, [])"
proof -
  let ?c = "ctx_of [(''base'', ''main'')] True"
  have r: "readConfig env_ex ?c = Some (Config_zero, None)"
    by (rule readConfig_env_ex) (simp add: ctx_simps)
  have a: "assemble env_ex ?c Config_zero = Config_zero\<lparr>Base := ''main'', All_flag := True\<rparr>"
    by (simp add: assemble_env_ex setCLIArg_def ctx_simps Let_def)
  have f: "Owner (assemble env_ex ?c Config_zero) = []"
    "All_flag (assemble env_ex ?c Config_zero)"
    "Base (assemble env_ex ?c Config_zero) = ''main''"
    unfolding a by (simp_all add: Config_zero_def)
  show ?thesis
    by (simp add: r f action_unfold[OF r] Let_def)
qed

text \<open>
  C4 (as amended). When the owner is still empty after the configuration file, the CLI
  flags, the environment, the defaults and the CI-platform fallback, \<open>action\<close> returns
  \<open>ErrOwnerIsRequired\<close>; when the owner is not empty and the repo is, it returns
  \<open>ErrRepoIsRequired\<close>; both without any event. The fallback fills owner and repo only
  when they are empty, and changes nothing else.
\<close>

theorem action_owner_repo_required:
  assumes "readConfig env c = Some (cfg0, None)"
    and "pre = SetDefault env (SetEnv env (setCLIArg c cfg0))"
    and "cfg = assemble env c cfg0"
  shows "(Owner cfg = '''' \<longrightarrow> action env c = Some (Some ErrOwnerIsRequired, []))
       \<and> (Owner cfg \<noteq> '''' \<and> Repo cfg = ''''
            \<longrightarrow> action env c = Some (Some ErrRepoIsRequired, []))
       \<and> Owner cfg = (if Owner pre \<noteq> '''' then Owner pre
                       else case cienv_Get env of None \<Rightarrow> ''''
                            | Some platform \<Rightarrow> RepoOwner platform)
       \<and> Repo cfg = (if Repo pre \<noteq> '''' then Repo pre
                      else case cienv_Get env of None \<Rightarrow> ''''
                           | Some platform \<Rightarrow> RepoName platform)
       \<and> cfg = pre\<lparr>Owner := Owner cfg, Repo := Repo cfg\<rparr>"
proof -
  have "action env c = Some (Some ErrOwnerIsRequired, [])" if "Owner cfg = ''''"
    using that assms(3) by (simp add: action_unfold[OF assms(1)] Let_def)
  moreover have "action env c = Some (Some ErrRepoIsRequired, [])"
    if "Owner cfg \<noteq> ''''" "Repo cfg = ''''"
    using that assms(3) by (simp add: action_unfold[OF assms(1)] Let_def)
  moreover have "Owner cfg = (if Owner pre \<noteq> '''' then Owner pre
                       else case cienv_Get env of None \<Rightarrow> ''''
                            | Some platform \<Rightarrow> RepoOwner platform)"
    using assms(2,3) by (simp add: assemble_def Let_def split: option.splits)
  moreover have "Repo cfg = (if Repo pre \<noteq> '''' then Repo pre
                      else case cienv_Get env of None \<Rightarrow> ''''
                           | Some platform \<Rightarrow> RepoName platform)"
    using assms(2,3) by (simp add: assemble_def Let_def split: option.splits)
  moreover have "cfg = pre\<lparr>Owner := Owner cfg, Repo := Repo cfg\<rparr>"
    using assms(2,3) by (simp add: assemble_def Let_def split: option.splits)
  ultimately show ?thesis by blast
qed

lemma readConfig_env_ex_platform:
  "String_of c ''config'' = '''' \<Longrightarrow>
   readConfig (env_ex\<lparr>cienv_Get := pl\<rparr>) c = Some (Config_zero, None)"
  by (simp add: readConfig_def env_ex_def FindAndRead_def find.simps names_def Let_def)

theorem action_owner_repo_required_witness:
  "action (env_ex\<lparr>cienv_Get := Some \<lparr>RepoOwner = ''octo'', RepoName = ''''\<rparr>\<rparr>)
          (ctx_of [(''base'', ''main'')] False) = Some (Some ErrRepoIsRequired, [])
   \<and> Owner (assemble (env_ex\<lparr>cienv_Get := Some \<lparr>RepoOwner = ''octo'', RepoName = ''''\<rparr>\<rparr>)
          (ctx_of [(''base'', ''main'')] False) Config_zero) = ''octo''
   \<and> action env_ex (ctx_of [(''repo'', ''r'')] False) = Some (Some ErrOwnerIsRequired, [])"
proof -
  let ?env = "env_ex\<lparr>cienv_Get := Some \<lparr>RepoOwner = ''octo'', RepoName = ''''\<rparr>\<rparr>"
  let ?c = "ctx_of [(''base'', ''main'')] False"
  let ?c2 = "ctx_of [(''repo'', ''r'')] False"
  have r: "readConfig ?env ?c = Some (Config_zero, None)"
    by (rule readConfig_env_ex_platform) (simp add: ctx_simps)
  have r2: "readConfig env_ex ?c2 = Some (Config_zero, None)"
    by (rule readConfig_env_ex) (simp add: ctx_simps)
  have p: "SetDefault ?env (SetEnv ?env (setCLIArg ?c Config_zero)) = Config_zero\<lparr>Base := ''main''\<rparr>"
    by (simp add: env_ex_def setCLIArg_def ctx_simps Let_def)
  have p2: "SetDefault env_ex (SetEnv env_ex (setCLIArg ?c2 Config_zero)) = Config_zero\<lparr>Repo := ''r''\<rparr>"
    by (simp add: env_ex_def setCLIArg_def ctx_simps Let_def)
  have z: "Owner Config_zero = []" "Repo Config_zero = []"
    by (simp_all add: Config_zero_def)
  have g: "cienv_Get ?env = Some \<lparr>RepoOwner = ''octo'', RepoName = ''''\<rparr>" "cienv_Get env_ex = None"
    by (simp_all add: env_ex_def)
  show ?thesis
    using action_owner_repo_required[OF r p[symmetric] refl]
      action_owner_repo_required[OF r2 p2[symmetric] refl]
    by (simp add: z g)
qed

text \<open>
  C4 as stated fails for the repo: with neither owner nor repo anywhere, the repo is empty
  and the error is \<open>ErrOwnerIsRequired\<close>.
\<close>

theorem action_repo_required_counterexample:
  "readConfig env_ex (ctx_of [(''base'', ''main'')] False) = Some (Config_zero, None)
   \<and> Repo (assemble env_ex (ctx_of [(''base'', ''main'')] False) Config_zero) = ''''
   \<and> action env_ex (ctx_of [(''base'', ''main'')] False) = Some (Some ErrOwnerIsRequired, [])
   \<and> action env_ex (ctx_of [(''base'', ''main'')] False) \<noteq> Some (Some ErrRepoIsRequired, [])"
proof -
  let ?c = "ctx_of [(''base'', ''main'')] False"
  have r: "readConfig env_ex ?c = Some (Config_zero, None)"
    by (rule readConfig_env_ex) (simp add: ctx_simps)
  have a: "assemble env_ex ?c Config_zero = Config_zero\<lparr>Base := ''main''\<rparr>"
    by (simp add: assemble_env_ex setCLIArg_def ctx_simps Let_def)
  have f: "Owner (assemble env_ex ?c Config_zero) = []"
    "Repo (assemble env_ex ?c Config_zero) = []"
    unfolding a by (simp_all add: Config_zero_def)
  show ?thesis
    by (simp add: r f action_unfold[OF r] Let_def)
qed

text \<open>
  C2. The claim wants a run with an empty access token to stop with the missing-token
  error. The code does not: with owner, repo and base given and no token anywhere,
  \<open>action\<close> builds the GitHub client with the empty token, calls \<^verbatim>\<open>UpdatePR\<close> and returns
  what it returns.
\<close>

theorem action_empty_token_runs:
  "GitHubToken (assemble env_ex
      (ctx_of [(''owner'', ''o''), (''repo'', ''r''), (''base'', ''main'')] False)
      Config_zero) = ''''
   \<and> action env_ex (ctx_of [(''owner'', ''o''), (''repo'', ''r''), (''base'', ''main'')] False)
     = Some (None,
         [GitHub_New \<lparr>Token = ''''\<rparr>,
          Log_Debug (Config_zero\<lparr>Owner := ''o'', Repo := ''r'', Base := ''main''\<rparr>),
          Expr_New '''',
          Update_PR \<lparr>ctrl_Config = Config_zero\<lparr>Owner := ''o'', Repo := ''r'', Base := ''main''\<rparr>,
                     ctrl_GitHub = \<lparr>Token = ''''\<rparr>, ctrl_Expr = (),
                     ctrl_Git = \<lparr>git_UserName = '''', git_UserEmail = ''''\<rparr>\<rparr>])"
proof -
  let ?c = "ctx_of [(''owner'', ''o''), (''repo'', ''r''), (''base'', ''main'')] False"
  let ?cfg = "Config_zero\<lparr>Owner := ''o'', Repo := ''r'', Base := ''main''\<rparr>"
  have r: "readConfig env_ex ?c = Some (Config_zero, None)"
    by (rule readConfig_env_ex) (simp add: ctx_simps)
  have a: "assemble env_ex ?c Config_zero = ?cfg"
    by (simp add: assemble_env_ex setCLIArg_def ctx_simps Let_def)
  have f: "Owner ?cfg = ''o''" "Repo ?cfg = ''r''" "Base ?cfg = ''main''" "\<not> All_flag ?cfg"
    "GitHubToken ?cfg = ''''" "LogLevel ?cfg = ''''" "Expr ?cfg = ''''"
    "UserName (GitCommand Config_zero) = ''''" "UserEmail (GitCommand Config_zero) = ''''"
    by (simp_all add: Config_zero_def)
  have e: "expr_New env_ex '''' = Inr ()" "UpdatePR env_ex = (\<lambda>ctrl. None)"
    by (simp_all add: env_ex_def)
  show ?thesis
    unfolding action_unfold[OF r] a
    by (simp add: f e Let_def setLogLevel_def del: Config.update_convs)
qed

lemma setLogLevel_empty: "LogLevel cfg = '''' \<Longrightarrow> setLogLevel env cfg = []"
  unfolding setLogLevel_def by (simp only: simp_thms if_False)

lemma setLogLevel_valid:
  "LogLevel cfg \<noteq> '''' \<Longrightarrow> ParseLevel env (LogLevel cfg) = (lvl, None)
   \<Longrightarrow> setLogLevel env cfg = [Set_Level lvl]"
  unfolding setLogLevel_def by (simp only: simp_thms if_True prod.case option.case append_Nil)

lemma setLogLevel_invalid:
  "LogLevel cfg \<noteq> '''' \<Longrightarrow> ParseLevel env (LogLevel cfg) = (lvl, Some e)
   \<Longrightarrow> setLogLevel env cfg = [Log_Error (LogLevel cfg) e, Set_Level lvl]"
  unfolding setLogLevel_def by (simp only: simp_thms if_True prod.case option.case append.simps)

lemma setLogLevel_no_Update_PR: "Update_PR ctrl \<notin> set (setLogLevel env cfg)"
proof (cases "LogLevel cfg = ''''")
  case True
  then show ?thesis by (simp only: setLogLevel_empty list.set empty_iff not_False_eq_True)
next
  case False
  obtain lvl err where p: "ParseLevel env (LogLevel cfg) = (lvl, err)"
    by (meson surj_pair)
  show ?thesis
  proof (cases err)
    case None
    with p False have "setLogLevel env cfg = [Set_Level lvl]"
      using setLogLevel_valid by blast
    then show ?thesis by simp
  next
    case (Some e)
    with p False have "setLogLevel env cfg = [Log_Error (LogLevel cfg) e, Set_Level lvl]"
      using setLogLevel_invalid by blast
    then show ?thesis by simp
  qed
qed

text \<open>
  C3. When the configuration passes validation and compiling its expression fails with
  \<open>err\<close>, \<open>action\<close> returns the error that wraps \<open>err\<close>; the compilation is the last
  event of the run, and \<^verbatim>\<open>UpdatePR\<close> is not among the events.
\<close>

theorem action_compile_error_aborts:
  assumes "readConfig env c = Some (cfg0, None)"
    and "cfg = assemble env c cfg0"
    and "Owner cfg \<noteq> ''''" and "Repo cfg \<noteq> ''''" and "All_flag cfg = (Base cfg = '''')"
    and "expr_New env (Expr cfg) = Inl err"
  shows "\<exists>tr. action env c =
            Some (Some (Errorf
              ''it is failed to compile the expression. Please check the expression'' err), tr)
          \<and> tr = GitHub_New \<lparr>Token = GitHubToken cfg\<rparr> # setLogLevel env cfg
                   @ [Log_Debug cfg, Expr_New (Expr cfg)]
          \<and> (\<forall>ctrl. Update_PR ctrl \<notin> set tr)"
  using assms(2-6)
  by (auto simp add: action_unfold[OF assms(1)] Let_def setLogLevel_no_Update_PR)

lemma readConfig_explicit_path:
  assumes "String_of c ''config'' = p" and "p \<noteq> ''''" and "os_Getwd env = Inr wd"
    and "os_Open env p = Inr f" and "yaml_Decode env f Config_zero = (cfg, None)"
  shows "readConfig env c = Some (cfg, None)"
  using assms by (simp add: readConfig_def FindAndRead_def read_def Let_def)

theorem action_compile_error_aborts_witness:
  "action (env_ex\<lparr>os_Open := (\<lambda>p. Inr ''expr: (''),
                  yaml_Decode := (\<lambda>f cfg. (cfg\<lparr>Expr := ''(''\<rparr>, None))\<rparr>)
          (ctx_of [(''config'', ''ci.yml''), (''owner'', ''o''), (''repo'', ''r'')] True)
    = Some (Some (Errorf
              ''it is failed to compile the expression. Please check the expression''
              (External ''unexpected token'')),
            [GitHub_New \<lparr>Token = ''''\<rparr>,
             Log_Debug (Config_zero\<lparr>Owner := ''o'', Repo := ''r'', All_flag := True, Expr := ''(''\<rparr>),
             Expr_New ''(''])"
proof -
  let ?env = "env_ex\<lparr>os_Open := (\<lambda>p. Inr ''expr: (''),
                  yaml_Decode := (\<lambda>f cfg. (cfg\<lparr>Expr := ''(''\<rparr>, None))\<rparr>"
  let ?c = "ctx_of [(''config'', ''ci.yml''), (''owner'', ''o''), (''repo'', ''r'')] True"
  let ?cfg = "Config_zero\<lparr>Owner := ''o'', Repo := ''r'', All_flag := True, Expr := ''(''\<rparr>"
  have r: "readConfig ?env ?c = Some (Config_zero\<lparr>Expr := ''(''\<rparr>, None)"
    by (rule readConfig_explicit_path[where p = "''ci.yml''" and wd = "''/''" and f = "''expr: (''"])
       (simp_all add: ctx_simps env_ex_def)
  have a: "?cfg = assemble ?env ?c (Config_zero\<lparr>Expr := ''(''\<rparr>)"
    by (simp add: assemble_def env_ex_def setCLIArg_def ctx_simps Let_def)
  have f: "Owner ?cfg \<noteq> ''''" "Repo ?cfg \<noteq> ''''" "All_flag ?cfg = (Base ?cfg = '''')"
    "GitHubToken ?cfg = ''''" "LogLevel ?cfg = ''''" "Expr ?cfg = ''(''"
    by (simp_all add: Config_zero_def)
  have e: "expr_New ?env (Expr ?cfg) = Inl (External ''unexpected token'')"
    by (simp add: env_ex_def)
  show ?thesis
    using action_compile_error_aborts[OF r a f(1,2,3) e]
    by (simp add: f setLogLevel_def del: Config.update_convs)
qed

lemma read_ParseLevel_update:
  "read (env\<lparr>ParseLevel := f\<rparr>) p = read env p"
  by (simp add: read_def cong: sum.case_cong)

lemma FindAndRead_ParseLevel_update:
  "FindAndRead (env\<lparr>ParseLevel := f\<rparr>) reader cfgPath wd = FindAndRead env reader cfgPath wd"
  by (auto simp: FindAndRead_def read_ParseLevel_update split: option.splits)

lemma readConfig_ParseLevel_update [simp]:
  "readConfig (env\<lparr>ParseLevel := f\<rparr>) c = readConfig env c"
  by (simp add: readConfig_def FindAndRead_ParseLevel_update cong: sum.case_cong)

lemma assemble_ParseLevel_update [simp]:
  "assemble (env\<lparr>ParseLevel := f\<rparr>) c cfg0 = assemble env c cfg0"
  by (simp add: assemble_def)

text \<open>
  C8 (as amended). When the assembled configuration passes validation (owner and repo
  are not empty, and exactly one of the base branch and the all-flag is set) and its log
  level is not empty but \<^verbatim>\<open>logrus.ParseLevel\<close> rejects it, returning a level \<open>lvl\<close>
  (logrus returns the zero level) and an error, \<open>action\<close> does not stop: it logs the
  error, sets the level to \<open>lvl\<close>, and goes on to compile the expression and to call
  \<^verbatim>\<open>UpdatePR\<close>. Apart from the logged error, the result and the events are those of the
  run in which the parse returns \<open>lvl\<close> without an error.
\<close>

theorem action_invalid_log_level_continues:
  assumes "readConfig env c = Some (cfg0, None)"
    and "cfg = assemble env c cfg0"
    and "Owner cfg \<noteq> ''''" and "Repo cfg \<noteq> ''''" and "All_flag cfg = (Base cfg = '''')"
    and "LogLevel cfg \<noteq> ''''"
    and "ParseLevel env (LogLevel cfg) = (lvl, Some e)"
    and "gh = \<lparr>Token = GitHubToken cfg\<rparr>"
    and "rest =
          (case expr_New env (Expr cfg) of
             Inl err \<Rightarrow>
               (Some (Errorf
                  ''it is failed to compile the expression. Please check the expression'' err),
                [])
           | Inr ex \<Rightarrow>
               (let ctrl = \<lparr>ctrl_Config = cfg, ctrl_GitHub = gh, ctrl_Expr = ex,
                            ctrl_Git = \<lparr>git_UserName = UserName (GitCommand cfg),
                                        git_UserEmail = UserEmail (GitCommand cfg)\<rparr>\<rparr>
                in (UpdatePR env ctrl, [Update_PR ctrl])))"
  shows "action env c =
           Some (fst rest,
                 [GitHub_New gh, Log_Error (LogLevel cfg) e, Set_Level lvl,
                  Log_Debug cfg, Expr_New (Expr cfg)] @ snd rest)
       \<and> action (env\<lparr>ParseLevel := (\<lambda>s. (lvl, None))\<rparr>) c =
           Some (fst rest,
                 [GitHub_New gh, Set_Level lvl,
                  Log_Debug cfg, Expr_New (Expr cfg)] @ snd rest)"
proof -
  have r': "readConfig (env\<lparr>ParseLevel := (\<lambda>s. (lvl, None))\<rparr>) c = Some (cfg0, None)"
    using assms(1) by simp
  have l: "setLogLevel env cfg = [Log_Error (LogLevel cfg) e, Set_Level lvl]"
    using assms(6,7) by (rule setLogLevel_invalid)
  have l': "setLogLevel (env\<lparr>ParseLevel := (\<lambda>s. (lvl, None))\<rparr>) cfg = [Set_Level lvl]"
    using assms(6) by (rule setLogLevel_valid) simp
  show ?thesis
    using assms(3-5) l l' unfolding assms(2,8,9)
    by (cases "expr_New env (Expr (assemble env c cfg0))")
       (simp_all add: action_unfold[OF assms(1)] action_unfold[OF r'] Let_def)
qed

theorem action_invalid_log_level_continues_witness:
  "action env_ex
     (ctx_of [(''owner'', ''o''), (''repo'', ''r''), (''base'', ''main''),
              (''log-level'', ''verbose'')] False)
   = Some (None,
       [GitHub_New \<lparr>Token = ''''\<rparr>,
        Log_Error ''verbose'' (External ''not a valid logrus Level''),
        Set_Level 0,
        Log_Debug (Config_zero\<lparr>Owner := ''o'', Repo := ''r'', Base := ''main'',
                                LogLevel := ''verbose''\<rparr>),
        Expr_New '''',
        Update_PR \<lparr>ctrl_Config = Config_zero\<lparr>Owner := ''o'', Repo := ''r'', Base := ''main'',
                                               LogLevel := ''verbose''\<rparr>,
                   ctrl_GitHub = \<lparr>Token = ''''\<rparr>, ctrl_Expr = (),
                   ctrl_Git = \<lparr>git_UserName = '''', git_UserEmail = ''''\<rparr>\<rparr>])"
proof -
  let ?c = "ctx_of [(''owner'', ''o''), (''repo'', ''r''), (''base'', ''main''),
              (''log-level'', ''verbose'')] False"
  let ?cfg = "Config_zero\<lparr>Owner := ''o'', Repo := ''r'', Base := ''main'',
                                LogLevel := ''verbose''\<rparr>"
  have r: "readConfig env_ex ?c = Some (Config_zero, None)"
    by (rule readConfig_env_ex) (simp add: ctx_simps)
  have a: "?cfg = assemble env_ex ?c Config_zero"
    by (simp add: assemble_env_ex setCLIArg_def ctx_simps Let_def)
  have f: "Owner ?cfg \<noteq> ''''" "Repo ?cfg \<noteq> ''''" "All_flag ?cfg = (Base ?cfg = '''')"
    "LogLevel ?cfg \<noteq> ''''"
    by (simp_all add: Config_zero_def)
  have g: "GitHubToken ?cfg = ''''" "LogLevel ?cfg = ''verbose''" "Expr ?cfg = ''''"
    by (simp_all add: Config_zero_def)
  have p: "ParseLevel env_ex (LogLevel ?cfg) = (0, Some (External ''not a valid logrus Level''))"
    by (simp add: env_ex_def Config_zero_def)
  have e: "expr_New env_ex '''' = Inr ()" "UpdatePR env_ex = (\<lambda>ctrl. None)"
    "ParseLevel env_ex ''verbose'' = (0, Some (External ''not a valid logrus Level''))"
    by (simp_all add: env_ex_def)
  have q: "expr_New env_ex (Expr ?cfg) = Inr ()"
    by (simp add: env_ex_def Config_zero_def)
  show ?thesis
    using action_invalid_log_level_continues[OF r a f p refl refl]
    by (simp add: g q e Let_def del: Config.update_convs) (simp add: Config_zero_def)
qed

text \<open>
  C8 as stated fails: with \<^verbatim>\<open>--base main --log-level verbose\<close> and no owner anywhere, the
  log level is not empty and the parse rejects it, but the run stops at the owner check
  with \<open>ErrOwnerIsRequired\<close>; nothing is logged, no level is set, and neither the
  compilation nor \<^verbatim>\<open>UpdatePR\<close> is reached.
\<close>

theorem action_invalid_log_level_counterexample:
  "readConfig env_ex (ctx_of [(''base'', ''main''), (''log-level'', ''verbose'')] False)
     = Some (Config_zero, None)
   \<and> LogLevel (assemble env_ex
        (ctx_of [(''base'', ''main''), (''log-level'', ''verbose'')] False) Config_zero)
       = ''verbose''
   \<and> ParseLevel env_ex ''verbose'' = (0, Some (External ''not a valid logrus Level''))
   \<and> action env_ex (ctx_of [(''base'', ''main''), (''log-level'', ''verbose'')] False)
       = Some (Some ErrOwnerIsRequired, [])"
proof -
  let ?c = "ctx_of [(''base'', ''main''), (''log-level'', ''verbose'')] False"
  have r: "readConfig env_ex ?c = Some (Config_zero, None)"
    by (rule readConfig_env_ex) (simp add: ctx_simps)
  have a: "assemble env_ex ?c Config_zero
             = Config_zero\<lparr>Base := ''main'', LogLevel := ''verbose''\<rparr>"
    by (simp add: assemble_env_ex setCLIArg_def ctx_simps Let_def)
  have f: "Owner (assemble env_ex ?c Config_zero) = []"
    "LogLevel (assemble env_ex ?c Config_zero) = ''verbose''"
    unfolding a by (simp_all add: Config_zero_def)
  have p: "ParseLevel env_ex ''verbose'' = (0, Some (External ''not a valid logrus Level''))"
    by (simp add: env_ex_def)
  have act: "action env_ex ?c = Some (Some ErrOwnerIsRequired, [])"
    by (simp add: f action_unfold[OF r] Let_def)
  from r f(2) p act show ?thesis by blast
qed

section \<open>Properties of path/filepath and of config.Reader\<close>

lemma backtrack_le: "backtrack dotdot buf w \<le> w"
  by (induction w) auto

lemma backtrack_ge: "dotdot \<le> w \<Longrightarrow> dotdot \<le> backtrack dotdot buf w"
  by (induction w) auto

lemma lastSeparator_le: "lastSeparator path i \<le> i"
  by (induction i) auto

lemma lastSeparator_pos:
  "0 < i \<Longrightarrow> IsPathSeparator (path ! 0) \<Longrightarrow> 0 < lastSeparator path i"
  by (induction i) auto

lemma lastSeparator_sep:
  "0 < lastSeparator path i \<Longrightarrow> IsPathSeparator (path ! (lastSeparator path i - 1))"
  by (induction i) (auto split: if_splits)

lemma atElemEnd_iff: "atElemEnd cs \<longleftrightarrow> cs = [] \<or> IsPathSeparator (hd cs)"
  by (cases cs) (simp_all add: atElemEnd_def)

lemma dropWhile_elem_end:
  "dropWhile (\<lambda>x. \<not> IsPathSeparator x) p = [] \<or>
   IsPathSeparator (hd (dropWhile (\<lambda>x. \<not> IsPathSeparator x) p))"
  using hd_dropWhile[of "\<lambda>x. \<not> IsPathSeparator x" p] by auto

lemma last_dropWhile_elem:
  assumes "p \<noteq> []"
  shows "(IsPathSeparator (last p)) =
         (dropWhile (\<lambda>x. \<not> IsPathSeparator x) p \<noteq> [] \<and>
          IsPathSeparator (last (dropWhile (\<lambda>x. \<not> IsPathSeparator x) p)))"
proof (cases "dropWhile (\<lambda>x. \<not> IsPathSeparator x) p = []")
  case True
  then have "\<forall>x\<in>set p. \<not> IsPathSeparator x" by (simp add: dropWhile_eq_Nil_conv)
  with assms have "\<not> IsPathSeparator (last p)" using last_in_set by blast
  with True show ?thesis by simp
next
  case False
  have "p = takeWhile (\<lambda>x. \<not> IsPathSeparator x) p @ dropWhile (\<lambda>x. \<not> IsPathSeparator x) p"
    by simp
  then have "last p = last (dropWhile (\<lambda>x. \<not> IsPathSeparator x) p)"
    using False by (metis last_appendR)
  with False show ?thesis by simp
qed

lemma length_take_drop_While:
  "length (takeWhile P p) + length (dropWhile P p) = length p"
  by (metis length_append takeWhile_dropWhile_id)

text \<open>The five ways one iteration of the loop of \<open>Clean\<close> can go.\<close>

lemma cleanLoop_sep:
  "IsPathSeparator c \<Longrightarrow> cleanLoop rooted out dotdot (c # cs) = cleanLoop rooted out dotdot cs"
  by (simp only: cleanLoop.simps(2) if_True)

lemma cleanLoop_dot:
  "\<not> IsPathSeparator c \<Longrightarrow> c = CHR ''.'' \<and> atElemEnd cs \<Longrightarrow>
   cleanLoop rooted out dotdot (c # cs) = cleanLoop rooted out dotdot cs"
  by (simp only: cleanLoop.simps(2) if_True if_False simp_thms)

lemma cleanLoop_dotdot_back:
  "\<not> IsPathSeparator c \<Longrightarrow> \<not> (c = CHR ''.'' \<and> atElemEnd cs) \<Longrightarrow>
   c = CHR ''.'' \<and> (case cs of [] \<Rightarrow> False | d # ds \<Rightarrow> d = CHR ''.'' \<and> atElemEnd ds) \<Longrightarrow>
   dotdot < length out \<Longrightarrow>
   cleanLoop rooted out dotdot (c # cs) =
     cleanLoop rooted (take (backtrack dotdot out (length out - 1)) out) dotdot (tl cs)"
  by (simp only: cleanLoop.simps(2) if_True if_False simp_thms)

lemma cleanLoop_dotdot_root:
  "\<not> IsPathSeparator c \<Longrightarrow> \<not> (c = CHR ''.'' \<and> atElemEnd cs) \<Longrightarrow>
   c = CHR ''.'' \<and> (case cs of [] \<Rightarrow> False | d # ds \<Rightarrow> d = CHR ''.'' \<and> atElemEnd ds) \<Longrightarrow>
   \<not> dotdot < length out \<Longrightarrow> rooted \<Longrightarrow>
   cleanLoop rooted out dotdot (c # cs) = cleanLoop rooted out dotdot (tl cs)"
  by (simp only: cleanLoop.simps(2) if_True if_False simp_thms)

lemma cleanLoop_elem:
  "\<not> IsPathSeparator c \<Longrightarrow> \<not> (c = CHR ''.'' \<and> atElemEnd cs) \<Longrightarrow>
   \<not> (c = CHR ''.'' \<and> (case cs of [] \<Rightarrow> False | d # ds \<Rightarrow> d = CHR ''.'' \<and> atElemEnd ds)) \<Longrightarrow>
   cleanLoop rooted out dotdot (c # cs) =
     cleanLoop rooted
       ((if rooted \<and> length out \<noteq> 1 \<or> \<not> rooted \<and> length out \<noteq> 0 then out @ ''/'' else out)
          @ takeWhile (\<lambda>x. \<not> IsPathSeparator x) (c # cs))
       dotdot (dropWhile (\<lambda>x. \<not> IsPathSeparator x) (c # cs))"
  by (simp only: cleanLoop.simps(2) if_False Let_def simp_thms)


declare cleanLoop.simps(2) [simp del]

text \<open>
  On a rooted path the loop keeps the leading slash, and its output is no longer than
  what it has written and has still to read; a trailing slash is dropped.
\<close>

lemma cleanLoop_rooted:
  "rooted \<Longrightarrow> dotdot = 1 \<Longrightarrow> 1 \<le> length out \<Longrightarrow>
     take 1 (cleanLoop rooted out dotdot p) = take 1 out \<and>
     length (cleanLoop rooted out dotdot p)
       + (if p \<noteq> [] \<and> IsPathSeparator (last p) then 1 else 0)
     \<le> length out + length p
       + (if p \<noteq> [] \<and> \<not> IsPathSeparator (hd p) \<and> length out \<noteq> 1 then 1 else 0)"
proof (induction rooted out dotdot p rule: cleanLoop.induct)
  case (1 rooted out dotdot)
  then show ?case by simp
next
  case (2 rooted out dotdot c cs)
  note rd = \<open>rooted\<close> \<open>dotdot = 1\<close> \<open>1 \<le> length out\<close>
  consider (sep) "IsPathSeparator c"
    | (dot) "\<not> IsPathSeparator c" "c = CHR ''.'' \<and> atElemEnd cs"
    | (dotdot) "\<not> IsPathSeparator c" "\<not> (c = CHR ''.'' \<and> atElemEnd cs)"
        "c = CHR ''.'' \<and> (case cs of [] \<Rightarrow> False | d # ds \<Rightarrow> d = CHR ''.'' \<and> atElemEnd ds)"
    | (elem) "\<not> IsPathSeparator c" "\<not> (c = CHR ''.'' \<and> atElemEnd cs)"
        "\<not> (c = CHR ''.'' \<and> (case cs of [] \<Rightarrow> False | d # ds \<Rightarrow> d = CHR ''.'' \<and> atElemEnd ds))"
    by blast
  then show ?case
  proof cases
    case sep
    let ?r = "cleanLoop rooted out dotdot cs"
    have eq: "cleanLoop rooted out dotdot (c # cs) = ?r"
      using sep by (rule cleanLoop_sep)
    from "2.IH"(1)[OF sep rd]
    have i1: "take 1 ?r = take 1 out"
      and i2: "length ?r + (if cs \<noteq> [] \<and> IsPathSeparator (last cs) then 1 else 0)
         \<le> length out + length cs
           + (if cs \<noteq> [] \<and> \<not> IsPathSeparator (hd cs) \<and> length out \<noteq> 1 then 1 else 0)"
      by blast+
    have "length ?r + (if c # cs \<noteq> [] \<and> IsPathSeparator (last (c # cs)) then 1 else 0)
         \<le> length out + length (c # cs)"
    proof (cases "cs = []")
      case True
      then show ?thesis by simp
    next
      case False
      then have l: "last (c # cs) = last cs" by simp
      have "(if cs \<noteq> [] \<and> \<not> IsPathSeparator (hd cs) \<and> length out \<noteq> 1 then 1 else 0) \<le> (1::nat)"
        by simp
      with i2 have "length ?r + (if cs \<noteq> [] \<and> IsPathSeparator (last cs) then 1 else 0)
         \<le> length out + length cs + 1" by linarith
      then show ?thesis unfolding l using False by simp
    qed
    with i1 show ?thesis unfolding eq by simp
  next
    case dot
    let ?r = "cleanLoop rooted out dotdot cs"
    have eq: "cleanLoop rooted out dotdot (c # cs) = ?r"
      using dot by (rule cleanLoop_dot)
    from dot have de: "cs = [] \<or> IsPathSeparator (hd cs)" by (simp add: atElemEnd_iff)
    from "2.IH"(2)[OF dot rd]
    have i1: "take 1 ?r = take 1 out"
      and i2: "length ?r + (if cs \<noteq> [] \<and> IsPathSeparator (last cs) then 1 else 0)
         \<le> length out + length cs
           + (if cs \<noteq> [] \<and> \<not> IsPathSeparator (hd cs) \<and> length out \<noteq> 1 then 1 else 0)"
      by blast+
    have pz: "(if cs \<noteq> [] \<and> \<not> IsPathSeparator (hd cs) \<and> length out \<noteq> 1 then 1 else 0) = (0::nat)"
      using de by auto
    have tl: "(if c # cs \<noteq> [] \<and> IsPathSeparator (last (c # cs)) then 1 else 0)
              \<le> (if cs \<noteq> [] \<and> IsPathSeparator (last cs) then 1 else (0::nat))"
      using dot(1) by simp
    have "length ?r + (if c # cs \<noteq> [] \<and> IsPathSeparator (last (c # cs)) then 1 else 0)
         \<le> length out + length (c # cs)"
      using i2[unfolded pz] tl by simp
    with i1 show ?thesis unfolding eq by simp
  next
    case dotdot
    from dotdot(3) obtain ds where cs: "cs = CHR ''.'' # ds" and ds: "atElemEnd ds"
      by (cases cs) simp_all
    from ds have de: "ds = [] \<or> IsPathSeparator (hd ds)" by (simp add: atElemEnd_iff)
    have tl: "(if c # cs \<noteq> [] \<and> IsPathSeparator (last (c # cs)) then 1 else 0)
              \<le> (if ds \<noteq> [] \<and> IsPathSeparator (last ds) then 1 else (0::nat))"
      using cs by (simp add: IsPathSeparator_def)
    have tcs: "tl cs = ds" using cs by simp
    show ?thesis
    proof (cases "dotdot < length out")
      case True
      let ?out = "take (backtrack dotdot out (length out - 1)) out"
      let ?r = "cleanLoop rooted ?out dotdot ds"
      have eq: "cleanLoop rooted out dotdot (c # cs) = ?r"
        using cleanLoop_dotdot_back[OF dotdot True] tcs by simp
      have b1: "1 \<le> backtrack dotdot out (length out - 1)"
        using backtrack_ge[of dotdot "length out - 1" out] True rd by simp
      have b2: "backtrack dotdot out (length out - 1) \<le> length out - 1"
        by (rule backtrack_le)
      have lo: "1 \<le> length ?out" "length ?out \<le> length out"
        using b1 b2 by simp_all
      have t1: "take 1 ?out = take 1 out"
        using b1 by (simp add: min_def)
      from "2.IH"(3)[OF dotdot True rd(1,2) lo(1)]
      have i1: "take 1 ?r = take 1 ?out"
        and i2: "length ?r + (if ds \<noteq> [] \<and> IsPathSeparator (last ds) then 1 else 0)
         \<le> length ?out + length ds
           + (if ds \<noteq> [] \<and> \<not> IsPathSeparator (hd ds) \<and> length ?out \<noteq> 1 then 1 else 0)"
        unfolding tcs by blast+
      have pz: "(if ds \<noteq> [] \<and> \<not> IsPathSeparator (hd ds) \<and> length ?out \<noteq> 1 then 1 else 0) = (0::nat)"
        using de by auto
      have "length ?r + (if c # cs \<noteq> [] \<and> IsPathSeparator (last (c # cs)) then 1 else 0)
         \<le> length out + length (c # cs)"
        using i2[unfolded pz] tl lo(2) cs by simp
      with i1 t1 show ?thesis unfolding eq by simp
    next
      case False
      let ?r = "cleanLoop rooted out dotdot ds"
      have eq: "cleanLoop rooted out dotdot (c # cs) = ?r"
        using cleanLoop_dotdot_root[OF dotdot False rd(1)] tcs by simp
      have nn: "\<not> \<not> rooted" using rd(1) by simp
      from "2.IH"(5)[OF dotdot False nn rd]
      have i1: "take 1 ?r = take 1 out"
        and i2: "length ?r + (if ds \<noteq> [] \<and> IsPathSeparator (last ds) then 1 else 0)
         \<le> length out + length ds
           + (if ds \<noteq> [] \<and> \<not> IsPathSeparator (hd ds) \<and> length out \<noteq> 1 then 1 else 0)"
        unfolding tcs by blast+
      have pz: "(if ds \<noteq> [] \<and> \<not> IsPathSeparator (hd ds) \<and> length out \<noteq> 1 then 1 else 0) = (0::nat)"
        using de by auto
      have "length ?r + (if c # cs \<noteq> [] \<and> IsPathSeparator (last (c # cs)) then 1 else 0)
         \<le> length out + length (c # cs)"
        using i2[unfolded pz] tl cs by simp
      with i1 show ?thesis unfolding eq by simp
    qed
  next
    case elem
    let ?x = "if rooted \<and> length out \<noteq> 1 \<or> \<not> rooted \<and> length out \<noteq> 0
              then out @ ''/'' else out"
    let ?tw = "takeWhile (\<lambda>x. \<not> IsPathSeparator x) (c # cs)"
    let ?dw = "dropWhile (\<lambda>x. \<not> IsPathSeparator x) (c # cs)"
    let ?r = "cleanLoop rooted (?x @ ?tw) dotdot ?dw"
    have eq: "cleanLoop rooted out dotdot (c # cs) = ?r"
      using elem by (rule cleanLoop_elem)
    have lx: "1 \<le> length (?x @ ?tw)" using rd by simp
    have t1: "take 1 (?x @ ?tw) = take 1 out" using rd by (cases out) simp_all
    have lenx: "length ?x = length out + (if length out \<noteq> 1 then 1 else 0)"
      using rd by simp
    have len: "length (?x @ ?tw) + length ?dw
                 = length out + length (c # cs) + (if length out \<noteq> 1 then 1 else 0)"
      using length_take_drop_While[of "\<lambda>x. \<not> IsPathSeparator x" "c # cs"]
      unfolding length_append lenx by linarith
    have de: "?dw = [] \<or> IsPathSeparator (hd ?dw)" by (rule dropWhile_elem_end)
    have la: "IsPathSeparator (last (c # cs)) = (?dw \<noteq> [] \<and> IsPathSeparator (last ?dw))"
      by (rule last_dropWhile_elem) simp
    from "2.IH"(6)[OF elem refl rd(1,2) lx]
    have i1: "take 1 ?r = take 1 (?x @ ?tw)"
      and i2: "length ?r + (if ?dw \<noteq> [] \<and> IsPathSeparator (last ?dw) then 1 else 0)
         \<le> length (?x @ ?tw) + length ?dw
           + (if ?dw \<noteq> [] \<and> \<not> IsPathSeparator (hd ?dw) \<and> length (?x @ ?tw) \<noteq> 1 then 1 else 0)"
      by blast+
    have pz: "(if ?dw \<noteq> [] \<and> \<not> IsPathSeparator (hd ?dw) \<and> length (?x @ ?tw) \<noteq> 1 then 1 else 0) = (0::nat)"
      using de by auto
    have tq: "(if c # cs \<noteq> [] \<and> IsPathSeparator (last (c # cs)) then 1 else 0)
              = (if ?dw \<noteq> [] \<and> IsPathSeparator (last ?dw) then 1 else (0::nat))"
      unfolding la by simp
    have pq: "(if c # cs \<noteq> [] \<and> \<not> IsPathSeparator (hd (c # cs)) \<and> length out \<noteq> 1 then 1 else 0)
              = (if length out \<noteq> 1 then 1 else (0::nat))"
      using elem(1) by simp
    have "length ?r + (if c # cs \<noteq> [] \<and> IsPathSeparator (last (c # cs)) then 1 else 0)
         \<le> length out + length (c # cs) + (if length out \<noteq> 1 then 1 else 0)"
      using i2 unfolding pz tq len by simp
    with i1 t1 show ?thesis unfolding eq pq by simp
  qed
qed

lemma Clean_rooted:
  assumes "IsAbs q"
  shows "IsAbs (Clean q)"
    and "length (Clean q) + (if tl q \<noteq> [] \<and> IsPathSeparator (last q) then 1 else 0)
           \<le> length q"
proof -
  from assms obtain r where q: "q = CHR ''/'' # r"
    by (cases q) (simp_all add: IsAbs_def)
  let ?res = "cleanLoop True ''/'' 1 r"
  from cleanLoop_rooted[of True 1 "''/''" r]
  have 1: "take 1 ?res = ''/''"
    and 2: "length ?res + (if r \<noteq> [] \<and> IsPathSeparator (last r) then 1 else 0)
              \<le> 1 + length r"
    by simp_all
  from 1 have ne: "?res \<noteq> []" by auto
  have c: "Clean q = ?res"
    using ne by (simp add: Clean_def q IsPathSeparator_def)
  from 1 show "IsAbs (Clean q)"
    unfolding c by (cases ?res) (simp_all add: IsAbs_def)
  have lq: "length q = 1 + length r" "tl q = r" "r \<noteq> [] \<Longrightarrow> last q = last r"
    by (simp_all add: q)
  from 2 show "length (Clean q) + (if tl q \<noteq> [] \<and> IsPathSeparator (last q) then 1 else 0)
           \<le> length q"
    unfolding c lq(1,2) using lq(3) by (cases "r = []") simp_all
qed

text \<open>The parent of an absolute path other than the root is absolute and shorter.\<close>

lemma Dir_rooted:
  assumes "IsAbs p" and "p \<noteq> ''/''"
  shows "IsAbs (Dir p)" and "length (Dir p) < length p"
proof -
  from assms obtain t where p: "p = CHR ''/'' # t" and t: "t \<noteq> []"
    by (cases p) (simp_all add: IsAbs_def)
  let ?k = "lastSeparator p (length p)"
  let ?q = "take ?k p"
  have k1: "0 < ?k"
    by (rule lastSeparator_pos) (simp_all add: p IsPathSeparator_def)
  have k2: "?k \<le> length p" by (rule lastSeparator_le)
  have ks: "IsPathSeparator (p ! (?k - 1))" using k1 by (rule lastSeparator_sep)
  have lq: "length ?q = ?k" using k2 by simp
  have qne: "?q \<noteq> []" using k1 lq by auto
  have hq: "hd ?q = CHR ''/''" using k1 by (simp add: p hd_take)
  have qabs: "IsAbs ?q"
    using qne hq by (cases ?q) (simp_all add: IsAbs_def)
  have lastq: "last ?q = p ! (?k - 1)"
    using k1 k2 qne by (simp add: last_conv_nth)
  from Clean_rooted(1)[OF qabs] show "IsAbs (Dir p)" by (simp add: Dir_def)
  have lp: "2 \<le> length p" using p t by (cases t) simp_all
  show "length (Dir p) < length p"
  proof (cases "?k = 1")
    case True
    from Clean_rooted(2)[OF qabs] have "length (Clean ?q) \<le> length ?q" by linarith
    then show ?thesis using lq True lp by (simp add: Dir_def)
  next
    case False
    with k1 have "2 \<le> ?k" by simp
    then have "tl ?q \<noteq> []" using lq by (cases ?q) auto
    with Clean_rooted(2)[OF qabs] lastq ks have "length (Clean ?q) + 1 \<le> length ?q"
      by simp
    then show ?thesis using lq k2 by (simp add: Dir_def)
  qed
qed

lemma find_root:
  "find reader ''/'' =
     (case findIn reader ''/'' names of Some p \<Rightarrow> Some (p, True) | None \<Rightarrow> Some ('''', False))"
  by (subst find.simps) (simp cong: option.case_cong)

lemma find_step:
  "findIn reader wd names = None \<Longrightarrow> wd \<noteq> ''/'' \<Longrightarrow> wd \<noteq> '''' \<Longrightarrow>
   find reader wd = find reader (Dir wd)"
  by (subst find.simps) simp

lemma find_returns: "IsAbs wd \<Longrightarrow> \<exists>p b. find reader wd = Some (p, b)"
proof (induction "length wd" arbitrary: wd rule: less_induct)
  case less
  show ?case
  proof (cases "findIn reader wd names")
    case (Some p)
    then have "find reader wd = Some (p, True)" by (subst find.simps) simp
    then show ?thesis by blast
  next
    case None
    show ?thesis
    proof (cases "wd = ''/''")
      case True
      with None have "find reader wd = Some ('''', False)" by (subst find.simps) simp
      then show ?thesis by blast
    next
      case False
      from less.prems have ne: "wd \<noteq> ''''" by (auto simp: IsAbs_def)
      from Dir_rooted[OF less.prems False]
      have "IsAbs (Dir wd)" "length (Dir wd) < length wd" by simp_all
      with less.hyps obtain p b where "find reader (Dir wd) = Some (p, b)" by blast
      with find_step[OF None False ne] show ?thesis by simp
    qed
  qed
qed


lemma find_found:
  "findIn reader wd names = Some p \<Longrightarrow> find reader wd = Some (p, True)"
  by (subst find.simps) simp


text \<open>
  C10. For every absolute working directory \<open>find\<close> returns. An iteration that finds one
  of the two file names returns its path; one that finds none returns at the root, and
  otherwise goes on with the parent directory, which is again absolute and strictly
  shorter. At the empty string the loop returns as well.
\<close>

theorem find_terminates:
  assumes "IsAbs wd"
  shows "(\<exists>p b. find reader wd = Some (p, b))
       \<and> (\<forall>p. findIn reader wd names = Some p \<longrightarrow> find reader wd = Some (p, True))
       \<and> (findIn reader wd names = None \<and> wd = ''/'' \<longrightarrow> find reader wd = Some ('''', False))
       \<and> (findIn reader wd names = None \<and> wd \<noteq> ''/'' \<longrightarrow>
            find reader wd = find reader (Dir wd)
            \<and> IsAbs (Dir wd) \<and> length (Dir wd) < length wd)
       \<and> (\<exists>p b. find reader '''' = Some (p, b))"
proof -
  have 1: "\<exists>p b. find reader wd = Some (p, b)"
    using assms by (rule find_returns)
  have 2: "\<forall>p. findIn reader wd names = Some p \<longrightarrow> find reader wd = Some (p, True)"
    by (simp add: find_found)
  have 3: "findIn reader wd names = None \<and> wd = ''/'' \<longrightarrow> find reader wd = Some ('''', False)"
    by (auto simp: find_root)
  have 4: "findIn reader wd names = None \<and> wd \<noteq> ''/'' \<longrightarrow>
            find reader wd = find reader (Dir wd)
            \<and> IsAbs (Dir wd) \<and> length (Dir wd) < length wd"
  proof (intro impI, elim conjE)
    assume n: "findIn reader wd names = None" and r: "wd \<noteq> ''/''"
    from assms have ne: "wd \<noteq> ''''" by (auto simp: IsAbs_def)
    from find_step[OF n r ne] Dir_rooted[OF assms r]
    show "find reader wd = find reader (Dir wd)
            \<and> IsAbs (Dir wd) \<and> length (Dir wd) < length wd" by simp
  qed
  have 5: "\<exists>p b. find reader '''' = Some (p, b)"
  proof (cases "findIn reader '''' names")
    case None
    then have "find reader '''' = Some ('''', False)" by (subst find.simps) simp
    then show ?thesis by blast
  next
    case (Some p)
    then have "find reader '''' = Some (p, True)" by (rule find_found)
    then show ?thesis by blast
  qed
  from 1 2 3 4 5 show ?thesis by blast
qed

lemma Dir_a_b: "Dir ''/a/b'' = ''/a''"
  by code_simp

lemma Join_ex:
  "Join [''/a/b'', ''.run-ci.yml''] = ''/a/b/.run-ci.yml''"
  "Join [''/a/b'', ''.run-ci.yaml''] = ''/a/b/.run-ci.yaml''"
  "Join [''/a'', ''.run-ci.yml''] = ''/a/.run-ci.yml''"
  "Join [''/a'', ''.run-ci.yaml''] = ''/a/.run-ci.yaml''"
  by code_simp+

theorem find_terminates_witness:
  "IsAbs ''/a/b''
   \<and> find \<lparr>ExistFile = (\<lambda>p. p = ''/a/.run-ci.yaml'')\<rparr> ''/a/b''
       = Some (''/a/.run-ci.yaml'', True)
   \<and> Dir ''/a/b'' = ''/a'' \<and> length ''/a'' < length ''/a/b''"
proof -
  let ?r = "\<lparr>ExistFile = (\<lambda>p. p = ''/a/.run-ci.yaml'')\<rparr>"
  have abs: "IsAbs ''/a/b''" "IsAbs ''/a''" by (simp_all add: IsAbs_def)
  have n: "findIn ?r ''/a/b'' names = None"
    by (simp add: names_def Join_ex Let_def del: Join.simps)
  have f: "findIn ?r ''/a'' names = Some ''/a/.run-ci.yaml''"
    by (simp add: names_def Join_ex Let_def del: Join.simps)
  from find_terminates[OF abs(1), of ?r] n
  have "find ?r ''/a/b'' = find ?r (Dir ''/a/b'')" by simp
  moreover from find_terminates[OF abs(2), of ?r] f
  have "find ?r ''/a'' = Some (''/a/.run-ci.yaml'', True)" by simp
  ultimately show ?thesis using abs(1) by (simp add: Dir_a_b)
qed






section \<open>Properties of the controller and of the expression evaluator\<close>

lemma processCandidate_number:
  "pr_number (fst (fst (processCandidate col pred s c))) = Number c"
  by (simp add: processCandidate_def Let_def split: sum.split bool.split prod.split)

lemma processCandidate_evaluated:
  "filter is_Evaluated (snd (fst (processCandidate col pred s c))) = [Evaluated (Number c)]"
  by (simp add: processCandidate_def Let_def split: sum.split bool.split prod.split)

lemma processCandidate_staleness:
  "filter is_StalenessChecked (snd (fst (processCandidate col pred s c))) =
     (if pred (context_of col c) = Inr True then [StalenessChecked (Number c)] else [])"
  by (simp add: processCandidate_def Let_def split: sum.split bool.split prod.split)

lemma runCandidates_Cons:
  "runCandidates col pred s (c # cs) =
     ((fst (fst (processCandidate col pred s c))
         # fst (fst (runCandidates col pred (snd (processCandidate col pred s c)) cs)),
       snd (fst (processCandidate col pred s c))
         @ snd (fst (runCandidates col pred (snd (processCandidate col pred s c)) cs))),
      snd (runCandidates col pred (snd (processCandidate col pred s c)) cs))"
  by (simp split: prod.split)

declare runCandidates.simps(2) [simp del]

lemma runCandidates_numbers:
  "map pr_number (fst (fst (runCandidates col pred s cs))) = map Number cs"
proof (induction cs arbitrary: s)
  case Nil
  show ?case by simp
next
  case (Cons c cs)
  show ?case
    unfolding runCandidates_Cons by (simp add: processCandidate_number Cons.IH)
qed

lemma runCandidates_evaluated:
  "filter is_Evaluated (snd (fst (runCandidates col pred s cs)))
     = map (\<lambda>c. Evaluated (Number c)) cs"
proof (induction cs arbitrary: s)
  case Nil
  show ?case by simp
next
  case (Cons c cs)
  show ?case
    unfolding runCandidates_Cons by (simp add: processCandidate_evaluated Cons.IH)
qed

lemma runCandidates_staleness:
  "filter is_StalenessChecked (snd (fst (runCandidates col pred s cs)))
     = map (\<lambda>c. StalenessChecked (Number c))
         (filter (\<lambda>c. pred (context_of col c) = Inr True) cs)"
proof (induction cs arbitrary: s)
  case Nil
  show ?case by simp
next
  case (Cons c cs)
  show ?case
    unfolding runCandidates_Cons by (simp add: processCandidate_staleness Cons.IH)
qed

lemma runCandidates_append:
  "runCandidates col pred s (pre @ post) =
     ((fst (fst (runCandidates col pred s pre))
         @ fst (fst (runCandidates col pred (snd (runCandidates col pred s pre)) post)),
       snd (fst (runCandidates col pred s pre))
         @ snd (fst (runCandidates col pred (snd (runCandidates col pred s pre)) post))),
      snd (runCandidates col pred (snd (runCandidates col pred s pre)) post))"
proof (induction pre arbitrary: s)
  case Nil
  show ?case by simp
next
  case (Cons c pre)
  show ?case
    unfolding append_Cons runCandidates_Cons[of col pred s] Cons.IH by simp
qed

text \<open>
  C6. In every run, whatever the filter, the staleness check and the trigger executor
  do, the run summary has exactly one outcome record per candidate, in the order of the
  candidates, and every candidate is evaluated exactly once. The candidates after a
  candidate \<open>c\<close> are processed from the state in which \<open>c\<close> left the working copy, with
  the same result whether \<open>c\<close> failed or not.
\<close>

theorem runCandidates_every_candidate_once:
  "map pr_number (fst (fst (runCandidates col pred s cs))) = map Number cs
   \<and> filter is_Evaluated (snd (fst (runCandidates col pred s cs)))
       = map (\<lambda>c. Evaluated (Number c)) cs
   \<and> fst (fst (runCandidates col pred s (pre @ c # post)))
       = fst (fst (runCandidates col pred s pre))
         @ fst (fst (processCandidate col pred (snd (runCandidates col pred s pre)) c))
         # fst (fst (runCandidates col pred
              (snd (processCandidate col pred (snd (runCandidates col pred s pre)) c)) post))"
  by (simp add: runCandidates_numbers runCandidates_evaluated runCandidates_append
      runCandidates_Cons)

lemma run_scenario:
  "fst (runCandidates col_ex (\<lambda>n. Inr (n \<noteq> 4)) 0 [cand 1, cand 2, cand 3, cand 4]) =
     ([\<lparr>pr_number = 1, action_taken = Failed (External ''push: permission denied'')\<rparr>,
       \<lparr>pr_number = 2, action_taken = UpToDate\<rparr>,
       \<lparr>pr_number = 3, action_taken = Triggered\<rparr>,
       \<lparr>pr_number = 4, action_taken = SkippedByFilter\<rparr>],
      [Evaluated 1, StalenessChecked 1, TriggerInvoked 1,
       Evaluated 2, StalenessChecked 2,
       Evaluated 3, StalenessChecked 3, TriggerInvoked 3,
       Evaluated 4])"
  by (simp add: runCandidates_Cons processCandidate_def col_ex_def cand_def Let_def)

theorem runCandidates_every_candidate_once_witness:
  "map pr_number
     (fst (fst (runCandidates col_ex (\<lambda>n. Inr (n \<noteq> 4)) 0 [cand 1, cand 2, cand 3, cand 4])))
     = [1, 2, 3, 4]
   \<and> map action_taken
     (fst (fst (runCandidates col_ex (\<lambda>n. Inr (n \<noteq> 4)) 0 [cand 1, cand 2, cand 3, cand 4])))
     = [Failed (External ''push: permission denied''), UpToDate, Triggered, SkippedByFilter]"
proof -
  from runCandidates_every_candidate_once
    [of col_ex "\<lambda>n. Inr (n \<noteq> 4)" 0 "[cand 1, cand 2, cand 3, cand 4]" "[]" "cand 1" "[]"]
  have a: "map pr_number
     (fst (fst (runCandidates col_ex (\<lambda>n. Inr (n \<noteq> 4)) 0 [cand 1, cand 2, cand 3, cand 4])))
     = map Number [cand 1, cand 2, cand 3, cand 4]"
    by (rule conjunct1)
  have b: "map Number [cand 1, cand 2, cand 3, cand 4] = [1, 2, 3, 4]"
    by (simp add: cand_def)
  have c: "map action_taken
     (fst (fst (runCandidates col_ex (\<lambda>n. Inr (n \<noteq> 4)) 0 [cand 1, cand 2, cand 3, cand 4])))
     = [Failed (External ''push: permission denied''), UpToDate, Triggered, SkippedByFilter]"
    unfolding run_scenario by simp
  from a[unfolded b] c show ?thesis by (rule conjI)
qed

text \<open>
  C7. Compiling the empty expression succeeds, whatever the compiler of the expression
  language is, and gives the predicate that is true in every evaluation context; with
  it every candidate reaches the staleness check.
\<close>

theorem compile_empty_selects_all:
  "compile compileSource '''' = Inr (\<lambda>ctx. Inr True)
   \<and> (case compile compileSource '''' of
        Inl e \<Rightarrow> False
      | Inr p \<Rightarrow>
          p ctx = Inr True
          \<and> filter is_StalenessChecked (snd (fst (runCandidates col p s cs)))
              = map (\<lambda>c. StalenessChecked (Number c)) cs)"
  by (simp add: compile_def runCandidates_staleness)

end
